theory Spec2Isabelle
  imports Main
begin

section \<open>Strings and JavaScript values\<close>

text \<open>
  Strings are \<^typ>\<open>string\<close>, read as UTF-8: a character outside ASCII is the sequence of
  its bytes. \<open>String.prototype.trim\<close> and the regular expression class \<open>\s\<close> strip the
  same 25 characters, ECMAScript's \<open>WhiteSpace\<close> and \<open>LineTerminator\<close>: tab, line feed,
  vertical tab, form feed, carriage return, space, U+00A0, U+1680, U+2000 to U+200A,
  U+2028, U+2029, U+202F, U+205F, U+3000 and U+FEFF, listed here by their encodings.
\<close>

definition white_space :: "string list" where
  "white_space =
     [[CHR 0x09], [CHR 0x0A], [CHR 0x0B], [CHR 0x0C], [CHR 0x0D], [CHR 0x20],
      [CHR 0xC2, CHR 0xA0], [CHR 0xE1, CHR 0x9A, CHR 0x80],
      [CHR 0xE2, CHR 0x80, CHR 0x80], [CHR 0xE2, CHR 0x80, CHR 0x81],
      [CHR 0xE2, CHR 0x80, CHR 0x82], [CHR 0xE2, CHR 0x80, CHR 0x83],
      [CHR 0xE2, CHR 0x80, CHR 0x84], [CHR 0xE2, CHR 0x80, CHR 0x85],
      [CHR 0xE2, CHR 0x80, CHR 0x86], [CHR 0xE2, CHR 0x80, CHR 0x87],
      [CHR 0xE2, CHR 0x80, CHR 0x88], [CHR 0xE2, CHR 0x80, CHR 0x89],
      [CHR 0xE2, CHR 0x80, CHR 0x8A], [CHR 0xE2, CHR 0x80, CHR 0xA8],
      [CHR 0xE2, CHR 0x80, CHR 0xA9], [CHR 0xE2, CHR 0x80, CHR 0xAF],
      [CHR 0xE2, CHR 0x81, CHR 0x9F], [CHR 0xE3, CHR 0x80, CHR 0x80],
      [CHR 0xEF, CHR 0xBB, CHR 0xBF]]"

text \<open>
  The number of bytes of the white space character the string starts with, or ends
  with; 0 when it starts, or ends, with none.
\<close>

definition ws_at_start :: "string \<Rightarrow> nat" where
  "ws_at_start s =
     (case find (\<lambda>e. take (length e) s = e) white_space of None \<Rightarrow> 0 | Some e \<Rightarrow> length e)"

definition ws_at_end :: "string \<Rightarrow> nat" where
  "ws_at_end s =
     (case find (\<lambda>e. length e \<le> length s \<and> drop (length s - length e) s = e) white_space of
        None \<Rightarrow> 0
      | Some e \<Rightarrow> length e)"

function trim_start :: "string \<Rightarrow> string" where
  "trim_start s = (if ws_at_start s = 0 then s else trim_start (drop (ws_at_start s) s))"
  by pat_completeness auto
termination
proof (relation "measure length")
  show "wf (measure length)" by simp
next
  fix s :: string
  assume nz: "ws_at_start s \<noteq> 0"
  then obtain e where f: "find (\<lambda>e. take (length e) s = e) white_space = Some e"
    and l: "ws_at_start s = length e"
    by (auto simp: ws_at_start_def split: option.splits)
  from f have "take (length e) s = e" by (auto simp: find_Some_iff)
  then have "length (take (length e) s) = length e" by simp
  then have "length e \<le> length s" by simp
  with nz l show "(drop (ws_at_start s) s, s) \<in> measure length" by (cases e) simp_all
qed

function trim_end :: "string \<Rightarrow> string" where
  "trim_end s = (if ws_at_end s = 0 then s else trim_end (take (length s - ws_at_end s) s))"
  by pat_completeness auto
termination
proof (relation "measure length")
  show "wf (measure length)" by simp
next
  fix s :: string
  assume nz: "ws_at_end s \<noteq> 0"
  then obtain e
    where f: "find (\<lambda>e. length e \<le> length s \<and> drop (length s - length e) s = e) white_space
                = Some e"
      and l: "ws_at_end s = length e"
    by (auto simp: ws_at_end_def split: option.splits)
  from f have "length e \<le> length s" by (auto simp: find_Some_iff)
  with nz l show "(take (length s - ws_at_end s) s, s) \<in> measure length"
    by (cases e) simp_all
qed

declare trim_start.simps [simp del] trim_end.simps [simp del]

definition trim :: "string \<Rightarrow> string" where
  "trim s = trim_end (trim_start s)"

text \<open>
  A JavaScript value as far as the record classes look at it: \<open>typeof v === 'string'\<close>
  holds for \<open>JStr\<close> only; a default parameter replaces \<open>JUndef\<close> only.
\<close>

datatype js = JUndef | JNull | JNum int | JStr string

definition dflt :: "js \<Rightarrow> js \<Rightarrow> js" where
  "dflt d v = (case v of JUndef \<Rightarrow> d | _ \<Rightarrow> v)"

section \<open>Record types\<close>

text \<open>
  \<open>class SearchData\<close>. The extractor hands over \<open>element?.textContent\<close>, which is a
  string or \<open>undefined\<close> (here \<open>None\<close>); the default parameter turns \<open>undefined\<close>
  into the empty string, and \<open>x.trim() || "No x"\<close> takes the placeholder exactly when
  the trimmed string is empty.
\<close>

record SearchData =
  name :: string
  description :: string
  dates :: string
  price :: string
  url :: string

definition or_else :: "string \<Rightarrow> string \<Rightarrow> string" where
  "or_else s placeholder = (if s = [] then placeholder else s)"

definition str_default :: "string option \<Rightarrow> string" where
  "str_default v = (case v of None \<Rightarrow> [] | Some s \<Rightarrow> s)"

definition SearchData_new ::
  "string option \<Rightarrow> string option \<Rightarrow> string option \<Rightarrow> string option \<Rightarrow> string option
     \<Rightarrow> SearchData" where
  "SearchData_new n d ds p u =
     \<lparr> name = or_else (trim (str_default n)) ''No name'',
       description = or_else (trim (str_default d)) ''No description'',
       dates = or_else (trim (str_default ds)) ''No dates'',
       price = or_else (trim (str_default p)) ''No price'',
       url = or_else (trim (str_default u)) ''No url'' \<rparr>"

text \<open>
  \<open>class ReviewData\<close>. The constructor stores the three arguments (with their defaults)
  and calls \<open>checkStringFields\<close>, which visits \<open>name\<close>, \<open>stars\<close>, \<open>review\<close> in turn: a
  field holding a string is replaced by \<open>"No <field>"\<close> when it is the empty string, and
  by its trimmed value otherwise; a field holding anything else is left alone.
\<close>

record ReviewData =
  rname :: js
  stars :: js
  review :: js

definition checkStringField :: "string \<Rightarrow> js \<Rightarrow> js" where
  "checkStringField field v =
     (case v of
        JStr s \<Rightarrow> if s = [] then JStr (''No '' @ field) else JStr (trim s)
      | _ \<Rightarrow> v)"

definition checkStringFields :: "ReviewData \<Rightarrow> ReviewData" where
  "checkStringFields r =
     \<lparr> rname = checkStringField ''name'' (rname r),
       stars = checkStringField ''stars'' (stars r),
       review = checkStringField ''review'' (review r) \<rparr>"

definition ReviewData_new :: "js \<Rightarrow> js \<Rightarrow> js \<Rightarrow> ReviewData" where
  "ReviewData_new n s r =
     checkStringFields
       \<lparr> rname = dflt (JStr []) n, stars = dflt (JNum 0) s, review = dflt (JStr []) r \<rparr>"

section \<open>The environment: log and file sink\<close>

text \<open>
  Log lines are kept as a level and a message; the messages are the template strings of
  the source, one constructor each, with the interpolated values as arguments.
\<close>

datatype level = info | warn | error | console_error

datatype 'k message =
    DuplicateItemFound 'k
  | ErrorFetchingPaginationURLs
  | PaginationLinksCollected
  | SuccessfullyScraped string
  | ErrorScraping string
  | AttemptingToNavigate string nat
  | ErrorProcessingURL string nat
  | MaxRetriesExceeded string

datatype exn =
    AppendError
  | BrowserError
  | NavigationError
  | ExtractionError
  | FailedToScrape string nat

text \<open>
  A file is the list of the writes appended to it. One write is one call of
  \<open>fs.appendFileSync(filePath, parse(dataToSave, {header}) + '\n')\<close>: whether the header
  line is included, and the records serialised. \<open>unwritable\<close> is the set of paths on
  which serialising or appending throws.
\<close>

type_synonym filename = string

type_synonym 'a csv_write = "bool \<times> 'a list"

record ('k, 'a) world =
  files :: "filename \<rightharpoonup> 'a csv_write list"
  unwritable :: "filename set"
  logs :: "(level \<times> 'k message) list"

definition log_line :: "level \<Rightarrow> 'k message \<Rightarrow> ('k, 'a) world \<Rightarrow> ('k, 'a) world" where
  "log_line l m w = w\<lparr>logs := logs w @ [(l, m)]\<rparr>"

definition existsSync :: "('k, 'a) world \<Rightarrow> filename \<Rightarrow> bool" where
  "existsSync w f = (files w f \<noteq> None)"

definition appendFileSync ::
  "filename \<Rightarrow> 'a csv_write \<Rightarrow> ('k, 'a) world \<Rightarrow> exn + ('k, 'a) world" where
  "appendFileSync f c w =
     (if f \<in> unwritable w then Inl AppendError
      else Inr (w\<lparr>files := (files w)(f \<mapsto> (case files w f of None \<Rightarrow> [] | Some cs \<Rightarrow> cs) @ [c])\<rparr>))"

definition file_rows :: "('k, 'a) world \<Rightarrow> filename \<Rightarrow> 'a list" where
  "file_rows w f = (case files w f of None \<Rightarrow> [] | Some cs \<Rightarrow> concat (map snd cs))"

section \<open>The pipeline\<close>

text \<open>
  \<open>class DataPipeline\<close>. The natural key of a record is its \<open>name\<close> property, passed
  here as the function \<open>key\<close>. Every method returns the exception it threw, if any,
  with the pipeline and the world as the method left them: what a method changed before
  it threw stays changed.
\<close>

record ('k, 'a) DataPipeline =
  namesSeen :: "'k set"
  storageQueue :: "'a list"
  storageQueueLimit :: nat
  csvFilename :: filename

type_synonym ('k, 'a) outcome = "exn option \<times> ('k, 'a) DataPipeline \<times> ('k, 'a) world"

definition DataPipeline_new :: "filename \<Rightarrow> nat \<Rightarrow> ('k, 'a) DataPipeline" where
  "DataPipeline_new f lim =
     \<lparr> namesSeen = {}, storageQueue = [], storageQueueLimit = lim, csvFilename = f \<rparr>"

definition saveToCsv :: "('k, 'a) DataPipeline \<Rightarrow> ('k, 'a) world \<Rightarrow> ('k, 'a) outcome" where
  "saveToCsv p w =
     (let filePath = csvFilename p;
          dataToSave = storageQueue p;
          p' = p\<lparr>storageQueue := []\<rparr>
      in if dataToSave = [] then (None, p', w)
         else (case appendFileSync filePath (\<not> existsSync w filePath, dataToSave) w of
                 Inl e \<Rightarrow> (Some e, p', w)
               | Inr w' \<Rightarrow> (None, p', w')))"

definition isDuplicate ::
  "'k \<Rightarrow> ('k, 'a) DataPipeline \<Rightarrow> ('k, 'a) world
     \<Rightarrow> bool \<times> ('k, 'a) DataPipeline \<times> ('k, 'a) world" where
  "isDuplicate n p w =
     (if n \<in> namesSeen p then (True, p, log_line warn (DuplicateItemFound n) w)
      else (False, p\<lparr>namesSeen := insert n (namesSeen p)\<rparr>, w))"

definition addData ::
  "('a \<Rightarrow> 'k) \<Rightarrow> 'a \<Rightarrow> ('k, 'a) DataPipeline \<Rightarrow> ('k, 'a) world \<Rightarrow> ('k, 'a) outcome" where
  "addData key d p w =
     (case isDuplicate (key d) p w of
        (True, p', w') \<Rightarrow> (None, p', w')
      | (False, p', w') \<Rightarrow>
          (let p'' = p'\<lparr>storageQueue := storageQueue p' @ [d]\<rparr>
           in if storageQueueLimit p'' \<le> length (storageQueue p'') then saveToCsv p'' w'
              else (None, p'', w')))"

definition closePipeline :: "('k, 'a) DataPipeline \<Rightarrow> ('k, 'a) world \<Rightarrow> ('k, 'a) outcome" where
  "closePipeline p w = (if 0 < length (storageQueue p) then saveToCsv p w else (None, p, w))"

text \<open>
  A sequence of calls on one pipeline, each awaited before the next is made; a call
  that throws is caught by the caller, who goes on with the next call.
\<close>

datatype 'a call = Add 'a | Close

fun calls ::
  "('a \<Rightarrow> 'k) \<Rightarrow> 'a call list \<Rightarrow> ('k, 'a) DataPipeline \<Rightarrow> ('k, 'a) world
     \<Rightarrow> ('k, 'a) DataPipeline \<times> ('k, 'a) world" where
  "calls key [] p w = (p, w)"
| "calls key (Add d # cs) p w = (case addData key d p w of (_, p', w') \<Rightarrow> calls key cs p' w')"
| "calls key (Close # cs) p w = (case closePipeline p w of (_, p', w') \<Rightarrow> calls key cs p' w')"


text \<open>
  The pipeline's invariant, relative to the rows \<open>base\<close> its file held when the pipeline
  was created: the rows appended since (\<open>flushed\<close>) and the rows of the batch carry
  pairwise different keys, all of them in the seen-set.
\<close>

definition stored_once ::
  "('a \<Rightarrow> 'k) \<Rightarrow> 'a list \<Rightarrow> ('k, 'a) DataPipeline \<Rightarrow> ('k, 'a) world \<Rightarrow> bool" where
  "stored_once key base p w =
     (\<exists>flushed. file_rows w (csvFilename p) = base @ flushed
        \<and> distinct (map key (flushed @ storageQueue p))
        \<and> key ` set (flushed @ storageQueue p) \<subseteq> namesSeen p)"

section \<open>Configuration\<close>

definition MAX_RETRIES :: nat where
  "MAX_RETRIES = 2"



definition PAGES :: int where
  "PAGES = 4"

section \<open>Page discovery\<close>

text \<open>
  \<open>keyword.replace(/, /g, "--").replace(/ /g, "-")\<close>: every comma followed by a space
  becomes two dashes, scanning from the left, then every remaining space one dash.
\<close>

fun replace_comma_space :: "string \<Rightarrow> string" where
  "replace_comma_space (c # d # cs) =
     (if c = CHR '','' \<and> d = CHR '' '' then ''--'' @ replace_comma_space cs
      else c # replace_comma_space (d # cs))"
| "replace_comma_space cs = cs"

definition replace_space :: "string \<Rightarrow> string" where
  "replace_space s = map (\<lambda>c. if c = CHR '' '' then CHR ''-'' else c) s"

definition formattedKeyword :: "string \<Rightarrow> string" where
  "formattedKeyword keyword = replace_space (replace_comma_space keyword)"

definition search_url :: "string \<Rightarrow> string" where
  "search_url keyword = ''https://www.airbnb.com/s/'' @ formattedKeyword keyword @ ''/homes''"

text \<open>
  \<open>Array.prototype.slice(0, end)\<close>: a negative \<open>end\<close> counts from the end of the array.
\<close>

definition js_slice0 :: "'a list \<Rightarrow> int \<Rightarrow> 'a list" where
  "js_slice0 xs e = (if e < 0 then take (nat (int (length xs) + e)) xs else take (nat e) xs)"

text \<open>
  What the browser does during one call of \<open>findPaginationUrls\<close>: whether
  \<open>puppeteer.launch\<close>, \<open>browser.newPage\<close> and \<open>browser.close\<close> return, and what the
  \<open>try\<close> block gets: \<open>None\<close> when \<open>page.goto\<close> or \<open>page.$$eval\<close> throws, otherwise the
  \<open>href\<close>s of the pagination anchors in document order.
\<close>

record discovery =
  launch_ok :: bool
  page_ok :: bool
  anchors :: "string list option"
  browser_close_ok :: bool

definition findPaginationUrls ::
  "discovery \<Rightarrow> string \<Rightarrow> int \<Rightarrow> ('k, 'a) world \<Rightarrow> (exn + string list) \<times> ('k, 'a) world" where
  "findPaginationUrls env keyword pages w =
     (if \<not> launch_ok env \<or> \<not> page_ok env then (Inl BrowserError, w)
      else
        let links = [search_url keyword];
            (links', w') =
              (case anchors env of
                 Some paginationLinks \<Rightarrow> (links @ js_slice0 paginationLinks (pages - 1), w)
               | None \<Rightarrow> (links, log_line error ErrorFetchingPaginationURLs w))
        in if \<not> browser_close_ok env then (Inl BrowserError, w')
           else (Inr links', log_line info PaginationLinksCollected w'))"

section \<open>Fetch with retry: one search page\<close>










section \<open>The detail crawl of one row\<close>

text \<open>
  A row of the search results file as \<open>csv-parser\<close> yields it; only \<open>name\<close> and \<open>url\<close>
  are read.
\<close>

record row =
  row_name :: string
  row_url :: string

text \<open>
  \<open>row.name.replace(/\s+/g, '-').replace(/\//g, '-') + ".csv"\<close>: every maximal run of
  white space becomes one dash, then every slash one dash.
\<close>

function replace_ws_runs :: "string \<Rightarrow> string" where
  "replace_ws_runs s =
     (if s = [] then []
      else if ws_at_start s = 0 then hd s # replace_ws_runs (tl s)
      else CHR ''-'' # replace_ws_runs (trim_start s))"
  by pat_completeness auto
termination
proof (relation "measure length")
  show "wf (measure length)" by simp
next
  fix s :: string
  assume "s \<noteq> []" "ws_at_start s = 0"
  then show "(tl s, s) \<in> measure length" by (cases s) simp_all
next
  fix s :: string
  assume ne: "s \<noteq> []" and ws: "ws_at_start s \<noteq> 0"
  have le: "length (trim_start t) \<le> length t" for t
  proof (induction t rule: trim_start.induct)
    case (1 t)
    show ?case
    proof (cases "ws_at_start t = 0")
      case True
      then show ?thesis by (simp add: trim_start.simps[of t])
    next
      case False
      with "1.IH" have "length (trim_start (drop (ws_at_start t) t)) \<le> length t" by simp
      with False show ?thesis by (simp add: trim_start.simps[of t])
    qed
  qed
  from ws have "trim_start s = trim_start (drop (ws_at_start s) s)"
    by (simp add: trim_start.simps[of s])
  moreover have "length (trim_start (drop (ws_at_start s) s)) \<le> length (drop (ws_at_start s) s)"
    by (rule le)
  moreover from ne ws have "length (drop (ws_at_start s) s) < length s" by simp
  ultimately show "(trim_start s, s) \<in> measure length" by simp
qed

declare replace_ws_runs.simps [simp del]

definition replace_slash :: "string \<Rightarrow> string" where
  "replace_slash s = map (\<lambda>c. if c = CHR ''/'' then CHR ''-'' else c) s"

definition review_filename :: "row \<Rightarrow> filename" where
  "review_filename r = replace_slash (replace_ws_runs (row_name r)) @ ''.csv''"

text \<open>
  One review card as the loop body reads it: some element handle call or
  \<open>page.evaluate\<close> throws, or the card yields the text of its \<open>h3\<close> (if it has one), the
  number of \<open>svg\<close> elements filled with \<open>rgb(34, 34, 34)\<close>, and the text of its last
  \<open>span\<close> (if it has one).
\<close>

datatype card = CardThrows | Card "string option" nat "string option"

datatype listing_visit = ListingThrows | Cards "card list"

text \<open>
  What the page does during one call of \<open>processListing\<close>: \<open>listing n\<close> is the outcome of
  \<open>page.goto\<close> and \<open>page.$$("div[role='listitem']")\<close> in the iteration entered with
  \<open>tries = n\<close>.
\<close>

record listing_env =
  tab_opens :: bool
  listing :: "nat \<Rightarrow> listing_visit"
  tab_closes :: bool

definition review_of :: "string option \<Rightarrow> nat \<Rightarrow> string option \<Rightarrow> ReviewData" where
  "review_of n filledStars r =
     ReviewData_new (JStr (case n of None \<Rightarrow> ''Unknown'' | Some t \<Rightarrow> t))
       (JNum (int filledStars))
       (JStr (case r of None \<Rightarrow> ''No review'' | Some t \<Rightarrow> t))"

fun addReviews ::
  "card list \<Rightarrow> (js, ReviewData) DataPipeline \<Rightarrow> (js, ReviewData) world
     \<Rightarrow> (js, ReviewData) outcome" where
  "addReviews [] p w = (None, p, w)"
| "addReviews (CardThrows # cs) p w = (Some ExtractionError, p, w)"
| "addReviews (Card n s r # cs) p w =
     (case addData rname (review_of n s r) p w of
        (Some e, p', w') \<Rightarrow> (Some e, p', w')
      | (None, p', w') \<Rightarrow> addReviews cs p' w')"

text \<open>
  The body of the \<open>try\<close> block after the log line: the review pipeline is a constant of
  that block, created anew in every iteration, and is out of scope in the \<open>catch\<close>.
\<close>

definition listing_attempt ::
  "listing_env \<Rightarrow> row \<Rightarrow> nat \<Rightarrow> (js, ReviewData) world \<Rightarrow> exn option \<times> (js, ReviewData) world"
  where
  "listing_attempt env r tries w =
     (case listing env tries of
        ListingThrows \<Rightarrow> (Some NavigationError, w)
      | Cards reviewCards \<Rightarrow>
          (case addReviews reviewCards (DataPipeline_new (review_filename r) 50) w of
             (Some e, reviewPipeline, w') \<Rightarrow> (Some e, w')
           | (None, reviewPipeline, w') \<Rightarrow>
               (case closePipeline reviewPipeline w' of (e, _, w'') \<Rightarrow> (e, w''))))"

function listing_loop ::
  "listing_env \<Rightarrow> row \<Rightarrow> nat \<Rightarrow> nat \<Rightarrow> (js, ReviewData) world \<Rightarrow> (js, ReviewData) world"
  where
  "listing_loop env r retries tries w =
     (if tries < retries then
        (case listing_attempt env r tries
                (log_line info (AttemptingToNavigate (row_url r) (tries + 1)) w) of
           (None, w') \<Rightarrow> w'
         | (Some e, w') \<Rightarrow>
             (let w'' = log_line console_error (ErrorProcessingURL (row_url r) (tries + 1)) w'
              in if retries \<le> tries + 1 then log_line error (MaxRetriesExceeded (row_url r)) w''
                 else listing_loop env r retries (tries + 1) w''))
      else w)"
  by pat_completeness auto
termination
  by (relation "measure (\<lambda>(env, r, retries, tries, w). retries - tries)") auto

definition processListing ::
  "listing_env \<Rightarrow> row \<Rightarrow> nat \<Rightarrow> (js, ReviewData) world \<Rightarrow> exn option \<times> (js, ReviewData) world"
  where
  "processListing env r retries w =
     (if \<not> tab_opens env then (Some BrowserError, w)
      else
        let w' = listing_loop env r retries 0 w
        in if \<not> tab_closes env then (Some BrowserError, w') else (None, w'))"

text \<open>
  An attempt that fails before anything can have been flushed: the navigation throws,
  or a card throws after fewer than 50 cards were read (the review pipeline's limit).
\<close>

definition fails_early :: "listing_visit \<Rightarrow> bool" where
  "fails_early v =
     (case v of
        ListingThrows \<Rightarrow> True
      | Cards cs \<Rightarrow> CardThrows \<in> set cs \<and> length (takeWhile (\<lambda>c. c \<noteq> CardThrows) cs) < 50)"


section \<open>Windows of concurrent tasks\<close>

text \<open>
  Both crawls run their tasks in windows: the outer loop steps \<open>i\<close> through the list by
  the window size, the inner loop calls the async task function for the entries
  \<open>i + j\<close>, \<open>j < c\<close>, collecting the promises, and the outer loop then awaits
  \<open>Promise.all(promises)\<close> inside a \<open>try\<close> whose \<open>catch\<close> only logs.

  Time is a logical clock. A task is what its promise does once started: after how long
  it settles, and whether it settles by rejection (for \<open>scrapeSearchResults\<close>: the final
  \<open>throw\<close> after the retries). Calling an async function and pushing its promise take
  no time.
\<close>

record task =
  dur :: nat
  rejects :: bool

record run =
  idx :: nat
  started :: nat
  settled :: nat
  rejected :: bool

definition start_task :: "task list \<Rightarrow> nat \<Rightarrow> nat \<Rightarrow> run" where
  "start_task tasks now k =
     \<lparr> idx = k, started = now, settled = now + dur (tasks ! k), rejected = rejects (tasks ! k) \<rparr>"

text \<open>The inner loop \<open>for (j = 0; j < c && i + j < tasks.length; j++)\<close>.\<close>

function spawn :: "nat \<Rightarrow> task list \<Rightarrow> nat \<Rightarrow> nat \<Rightarrow> nat \<Rightarrow> run list" where
  "spawn c tasks i now j =
     (if j < c \<and> i + j < length tasks then start_task tasks now (i + j) # spawn c tasks i now (Suc j)
      else [])"
  by pat_completeness auto
termination
  by (relation "measure (\<lambda>(c, tasks, i, now, j). c - j)") auto

text \<open>
  The time at which \<open>await Promise.all(promises)\<close> resumes the loop. \<open>Promise.all\<close>
  rejects as soon as one of its promises rejects, without waiting for the others, and
  fulfils once all have fulfilled; either way the loop goes on, the rejection being
  caught and logged.
\<close>

definition promise_all :: "nat \<Rightarrow> run list \<Rightarrow> nat" where
  "promise_all now promises =
     (case filter rejected promises of
        [] \<Rightarrow> fold max (map settled promises) now
      | r # rs \<Rightarrow> fold min (map settled rs) (settled r))"

text \<open>
  The outer loop \<open>for (i = 0; i < tasks.length; i += c)\<close>, returning the windows in the
  order they were started. The source's window sizes are the positive constants
  \<open>MAX_SEARCH_DATA_THREADS\<close> and \<open>MAX_REVIEW_DATA_THREADS\<close>; with \<open>c = 0\<close> the source's
  loop would never advance, and the function here returns no window.
\<close>

function window_loop :: "nat \<Rightarrow> task list \<Rightarrow> nat \<Rightarrow> nat \<Rightarrow> run list list" where
  "window_loop c tasks i now =
     (if i < length tasks \<and> 0 < c then
        (let promises = spawn c tasks i now 0
         in promises # window_loop c tasks (i + c) (promise_all now promises))
      else [])"
  by pat_completeness auto
termination
  by (relation "measure (\<lambda>(c, tasks, i, now). length tasks - i)") auto





section \<open>The detail phase of the orchestrator\<close>

text \<open>
  \<open>processResults\<close> logs, launches a browser, opens a read stream on the file and
  registers three callbacks on it; its body ends there, so the promise it returns
  fulfils as soon as the callbacks are registered. The rows are read and crawled by the
  \<open>'end'\<close> callback, which the event loop calls later, when the stream has been read;
  nothing awaits it. The state keeps the log lines of this phase and the \<open>'end'\<close>
  callbacks registered and not yet called, each with the file and the retry count it
  closes over.
\<close>

datatype detail_line = Processing filename | ErrorProcessingFile filename

record detail_phase =
  printed :: "detail_line list"
  end_callbacks :: "(filename \<times> nat) list"

definition processResults ::
  "(filename \<Rightarrow> bool) \<Rightarrow> filename \<Rightarrow> nat \<Rightarrow> detail_phase \<Rightarrow> exn option \<times> detail_phase" where
  "processResults launches file retries st =
     (let st' = st\<lparr>printed := printed st @ [Processing file]\<rparr>
      in if \<not> launches file then (Some BrowserError, st')
         else (None, st'\<lparr>end_callbacks := end_callbacks st' @ [(file, retries)]\<rparr>))"

text \<open>
  The loop \<open>for (let file of aggregateFiles) { try { await processResults(file,
  MAX_RETRIES) } catch ... }\<close> of the main function.
\<close>

fun process_files :: "(filename \<Rightarrow> bool) \<Rightarrow> filename list \<Rightarrow> detail_phase \<Rightarrow> detail_phase" where
  "process_files launches [] st = st"
| "process_files launches (file # rest) st =
     (case processResults launches file MAX_RETRIES st of
        (None, st') \<Rightarrow> process_files launches rest st'
      | (Some e, st') \<Rightarrow>
          process_files launches rest (st'\<lparr>printed := printed st' @ [ErrorProcessingFile file]\<rparr>))"


section \<open>Record normalisation\<close>

lemma trim_start_stop: "ws_at_start s = 0 \<Longrightarrow> trim_start s = s"
  by (simp add: trim_start.simps[of s])

lemma trim_start_go: "0 < ws_at_start s \<Longrightarrow> trim_start s = trim_start (drop (ws_at_start s) s)"
  by (simp add: trim_start.simps[of s])

lemma trim_end_stop: "ws_at_end s = 0 \<Longrightarrow> trim_end s = s"
  by (simp add: trim_end.simps[of s])

lemma trim_end_go:
  "0 < ws_at_end s \<Longrightarrow> trim_end s = trim_end (take (length s - ws_at_end s) s)"
  by (simp add: trim_end.simps[of s])

lemmas trim_eval =
  trim_def trim_start_stop trim_start_go trim_end_stop trim_end_go
  ws_at_start_def ws_at_end_def white_space_def

lemma trim_blank: "trim ''   '' = []"
  by (simp add: trim_eval)

text \<open>
  C4. A review whose name is blank but not empty (three spaces) is stored with the empty
  string as its name, where the search record built from the same text stores the
  placeholder \<open>No name\<close>: \<open>checkStringFields\<close> tests for the empty string before it
  trims, \<open>SearchData\<close> after.
\<close>

theorem C4_review_blank_name_stored_empty:
  "rname (ReviewData_new (JStr ''   '') (JNum 5) (JStr ''nice'')) = JStr []
   \<and> name (SearchData_new (Some ''   '') None None None None) = ''No name''"
  by (simp add: ReviewData_new_def checkStringFields_def checkStringField_def dflt_def
      SearchData_new_def or_else_def str_default_def trim_blank)

section \<open>Pipeline properties\<close>

lemma saveToCsv_empty: "storageQueue p = [] \<Longrightarrow> saveToCsv p w = (None, p, w)"
  by (simp add: saveToCsv_def)

lemma saveToCsv_ok:
  "storageQueue p \<noteq> [] \<Longrightarrow> csvFilename p \<notin> unwritable w \<Longrightarrow>
   saveToCsv p w =
     (None, p\<lparr>storageQueue := []\<rparr>,
      w\<lparr>files := (files w)(csvFilename p \<mapsto>
            (case files w (csvFilename p) of None \<Rightarrow> [] | Some cs \<Rightarrow> cs)
              @ [(\<not> existsSync w (csvFilename p), storageQueue p)])\<rparr>)"
  by (simp add: saveToCsv_def appendFileSync_def Let_def)

lemma saveToCsv_fail:
  "storageQueue p \<noteq> [] \<Longrightarrow> csvFilename p \<in> unwritable w \<Longrightarrow>
   saveToCsv p w = (Some AppendError, p\<lparr>storageQueue := []\<rparr>, w)"
  by (simp add: saveToCsv_def appendFileSync_def Let_def)

lemma saveToCsv_cases:
  "saveToCsv p w = (e, p', w') \<Longrightarrow>
     p' = p\<lparr>storageQueue := []\<rparr> \<and>
     ((e = None \<and> file_rows w' (csvFilename p) = file_rows w (csvFilename p) @ storageQueue p
        \<and> unwritable w' = unwritable w \<and> logs w' = logs w)
      \<or> (e = Some AppendError \<and> w' = w \<and> storageQueue p \<noteq> [] \<and> csvFilename p \<in> unwritable w))"
  by (auto simp add: saveToCsv_def appendFileSync_def Let_def file_rows_def split: if_splits option.splits)

lemma closePipeline_eq: "closePipeline p w = saveToCsv p w"
  by (simp add: closePipeline_def saveToCsv_empty)

lemma addData_dup:
  "key d \<in> namesSeen p \<Longrightarrow>
   addData key d p w = (None, p, log_line warn (DuplicateItemFound (key d)) w)"
  by (simp add: addData_def isDuplicate_def)

lemma addData_new:
  "key d \<notin> namesSeen p \<Longrightarrow>
   addData key d p w =
     (if storageQueueLimit p \<le> Suc (length (storageQueue p))
      then saveToCsv (p\<lparr>namesSeen := insert (key d) (namesSeen p), storageQueue := storageQueue p @ [d]\<rparr>) w
      else (None, p\<lparr>namesSeen := insert (key d) (namesSeen p), storageQueue := storageQueue p @ [d]\<rparr>, w))"
  by (simp add: addData_def isDuplicate_def Let_def)

lemma stored_once_saveToCsv:
  assumes "stored_once key base p w" "saveToCsv p w = (e, p', w')"
  shows "stored_once key base p' w'"
proof -
  from assms(1) obtain fl where fl: "file_rows w (csvFilename p) = base @ fl"
    "distinct (map key (fl @ storageQueue p))" "key ` set (fl @ storageQueue p) \<subseteq> namesSeen p"
    unfolding stored_once_def by blast
  from saveToCsv_cases[OF assms(2)] have p': "p' = p\<lparr>storageQueue := []\<rparr>" by simp
  from saveToCsv_cases[OF assms(2)] consider
    "file_rows w' (csvFilename p) = file_rows w (csvFilename p) @ storageQueue p" | "w' = w"
    by blast
  then show ?thesis
  proof cases
    case 1
    with fl p' show ?thesis
      unfolding stored_once_def by (intro exI[of _ "fl @ storageQueue p"]) simp
  next
    case 2
    with fl p' show ?thesis
      unfolding stored_once_def by (intro exI[of _ fl]) auto
  qed
qed

lemma stored_once_addData:
  assumes "stored_once key base p w" "addData key d p w = (e, p', w')"
  shows "stored_once key base p' w'"
proof (cases "key d \<in> namesSeen p")
  case True
  with assms show ?thesis
    by (auto simp: addData_dup stored_once_def log_line_def file_rows_def)
next
  case False
  let ?q = "p\<lparr>namesSeen := insert (key d) (namesSeen p), storageQueue := storageQueue p @ [d]\<rparr>"
  have q: "stored_once key base ?q w"
    using assms(1) False unfolding stored_once_def by (elim exE, rule_tac x = flushed in exI) auto
  show ?thesis
  proof (cases "storageQueueLimit p \<le> Suc (length (storageQueue p))")
    case True
    with False assms(2) have "saveToCsv ?q w = (e, p', w')" by (simp add: addData_new)
    from stored_once_saveToCsv[OF q this] show ?thesis .
  next
    case f: False
    with False assms(2) have "p' = ?q" "w' = w" by (simp_all add: addData_new)
    with q show ?thesis by simp
  qed
qed

lemma csvFilename_saveToCsv: "saveToCsv p w = (e, p', w') \<Longrightarrow> csvFilename p' = csvFilename p"
  by (auto dest: saveToCsv_cases)

lemma csvFilename_addData: "addData key d p w = (e, p', w') \<Longrightarrow> csvFilename p' = csvFilename p"
  by (cases "key d \<in> namesSeen p") (auto simp: addData_dup addData_new dest: csvFilename_saveToCsv split: if_splits)

lemma namesSeen_saveToCsv: "saveToCsv p w = (e, p', w') \<Longrightarrow> namesSeen p' = namesSeen p"
  by (auto dest: saveToCsv_cases)

lemma namesSeen_addData: "addData key d p w = (e, p', w') \<Longrightarrow> namesSeen p' = insert (key d) (namesSeen p)"
  by (cases "key d \<in> namesSeen p") (auto simp: addData_dup addData_new dest: namesSeen_saveToCsv split: if_splits)

lemma stored_once_calls:
  "stored_once key base p w \<Longrightarrow> calls key cs p w = (p', w') \<Longrightarrow> stored_once key base p' w'"
proof (induction cs arbitrary: p w)
  case Nil
  then show ?case by simp
next
  case (Cons c cs)
  show ?case
  proof (cases c)
    case (Add d)
    obtain e p1 w1 where s: "addData key d p w = (e, p1, w1)" by (cases "addData key d p w") auto
    from Cons.prems(2) Add s have "calls key cs p1 w1 = (p', w')" by simp
    from Cons.IH[OF stored_once_addData[OF Cons.prems(1) s] this] show ?thesis .
  next
    case Close
    obtain e p1 w1 where s: "saveToCsv p w = (e, p1, w1)" by (cases "saveToCsv p w") auto
    from Cons.prems(2) Close s have "calls key cs p1 w1 = (p', w')" by (simp add: closePipeline_eq)
    from Cons.IH[OF stored_once_saveToCsv[OF Cons.prems(1) s] this] show ?thesis .
  qed
qed

lemma namesSeen_calls:
  "calls key cs p w = (p', w') \<Longrightarrow> namesSeen p \<subseteq> namesSeen p'"
proof (induction cs arbitrary: p w)
  case Nil
  then show ?case by simp
next
  case (Cons c cs)
  show ?case
  proof (cases c)
    case (Add d)
    obtain e p1 w1 where s: "addData key d p w = (e, p1, w1)" by (cases "addData key d p w") auto
    from Cons.prems Add s have "calls key cs p1 w1 = (p', w')" by simp
    from Cons.IH[OF this] namesSeen_addData[OF s] show ?thesis by auto
  next
    case Close
    obtain e p1 w1 where s: "saveToCsv p w = (e, p1, w1)" by (cases "saveToCsv p w") auto
    from Cons.prems Close s have "calls key cs p1 w1 = (p', w')" by (simp add: closePipeline_eq)
    from Cons.IH[OF this] namesSeen_saveToCsv[OF s] show ?thesis by auto
  qed
qed

lemma csvFilename_calls:
  "calls key cs p w = (p', w') \<Longrightarrow> csvFilename p' = csvFilename p"
proof (induction cs arbitrary: p w)
  case Nil
  then show ?case by simp
next
  case (Cons c cs)
  show ?case
  proof (cases c)
    case (Add d)
    obtain e p1 w1 where s: "addData key d p w = (e, p1, w1)" by (cases "addData key d p w") auto
    from Cons.prems Add s have "calls key cs p1 w1 = (p', w')" by simp
    from Cons.IH[OF this] csvFilename_addData[OF s] show ?thesis by auto
  next
    case Close
    obtain e p1 w1 where s: "saveToCsv p w = (e, p1, w1)" by (cases "saveToCsv p w") auto
    from Cons.prems Close s have "calls key cs p1 w1 = (p', w')" by (simp add: closePipeline_eq)
    from Cons.IH[OF this] csvFilename_saveToCsv[OF s] show ?thesis by auto
  qed
qed

lemma stored_once_new: "stored_once key (file_rows w f) (DataPipeline_new f lim) w"
  by (simp add: stored_once_def DataPipeline_new_def)

lemma added_keys_calls:
  "calls key cs p w = (p', w') \<Longrightarrow> Add d \<in> set cs \<Longrightarrow> key d \<in> namesSeen p'"
proof (induction cs arbitrary: p w)
  case Nil
  then show ?case by simp
next
  case (Cons c cs)
  show ?case
  proof (cases c)
    case (Add d')
    obtain e p1 w1 where s: "addData key d' p w = (e, p1, w1)" by (cases "addData key d' p w") auto
    from Cons.prems Add s have c: "calls key cs p1 w1 = (p', w')" by simp
    show ?thesis
    proof (cases "Add d \<in> set cs")
      case True
      from Cons.IH[OF c True] show ?thesis .
    next
      case False
      with Cons.prems(2) Add have "d' = d" by simp
      with namesSeen_addData[OF s] namesSeen_calls[OF c] show ?thesis by auto
    qed
  next
    case Close
    obtain e p1 w1 where s: "saveToCsv p w = (e, p1, w1)" by (cases "saveToCsv p w") auto
    from Cons.prems Close s have c: "calls key cs p1 w1 = (p', w')" by (simp add: closePipeline_eq)
    from Cons.prems(2) Close have "Add d \<in> set cs" by simp
    from Cons.IH[OF c this] show ?thesis .
  qed
qed

lemmas new_simps = SearchData_new_def or_else_def str_default_def trim_eval

text \<open>
  C3 (as amended). A flush never changes the seen-key set and always leaves the
  in-memory batch empty. When it returns normally, the file has grown by exactly the
  records of the batch, in order. When it throws, it was the append that threw, on a
  batch that was not empty, and the world is as before the flush: nothing was written,
  so nothing is written twice, but the records, taken out of the batch before the
  append was tried, are in neither place.
\<close>

theorem C3_failed_flush_empties_batch:
  "saveToCsv p w = (e, p', w') \<Longrightarrow>
     namesSeen p' = namesSeen p \<and> storageQueue p' = []
     \<and> (e = None \<longrightarrow>
          file_rows w' (csvFilename p) = file_rows w (csvFilename p) @ storageQueue p)
     \<and> (e \<noteq> None \<longrightarrow> e = Some AppendError \<and> w' = w \<and> storageQueue p \<noteq> [])"
  by (auto dest: saveToCsv_cases)

text \<open>
  C3 as stated fails: with the pipeline's file unwritable, flushing a batch of one
  record throws, leaves the batch empty and the file without rows. The record was
  removed from the batch without being appended, and is in neither place.
\<close>
theorem C3_failed_flush_loses_batch:
  "fst (saveToCsv
          \<lparr> namesSeen = {''a''}, storageQueue = [SearchData_new (Some ''a'') None None None None],
            storageQueueLimit = 50, csvFilename = ''out.csv'' \<rparr>
          \<lparr> files = Map.empty, unwritable = {''out.csv''}, logs = [] \<rparr>) = Some AppendError
   \<and> storageQueue (fst (snd (saveToCsv
          \<lparr> namesSeen = {''a''}, storageQueue = [SearchData_new (Some ''a'') None None None None],
            storageQueueLimit = 50, csvFilename = ''out.csv'' \<rparr>
          \<lparr> files = Map.empty, unwritable = {''out.csv''}, logs = [] \<rparr>))) = []
   \<and> file_rows (snd (snd (saveToCsv
          \<lparr> namesSeen = {''a''}, storageQueue = [SearchData_new (Some ''a'') None None None None],
            storageQueueLimit = 50, csvFilename = ''out.csv'' \<rparr>
          \<lparr> files = Map.empty, unwritable = {''out.csv''}, logs = [] \<rparr>))) ''out.csv'' = []"
  by (simp add: saveToCsv_fail file_rows_def)

theorem C3_failed_flush_empties_batch_witness:
  "saveToCsv
      \<lparr> namesSeen = {''a''}, storageQueue = [SearchData_new (Some ''a'') None None None None],
        storageQueueLimit = 50, csvFilename = ''out.csv'' \<rparr>
      \<lparr> files = Map.empty, unwritable = {''out.csv''}, logs = [] \<rparr>
    = (Some AppendError,
       \<lparr> namesSeen = {''a''}, storageQueue = [], storageQueueLimit = 50, csvFilename = ''out.csv'' \<rparr>,
       \<lparr> files = Map.empty, unwritable = {''out.csv''}, logs = [] \<rparr>)
   \<and> namesSeen \<lparr> namesSeen = {''a''}, storageQueue = ([] :: SearchData list),
                  storageQueueLimit = 50, csvFilename = ''out.csv'' \<rparr> = {''a''}"
proof -
  let ?p = "\<lparr> namesSeen = {''a''}, storageQueue = [SearchData_new (Some ''a'') None None None None],
        storageQueueLimit = 50, csvFilename = ''out.csv'' \<rparr>"
  let ?w = "\<lparr> files = Map.empty, unwritable = {''out.csv''}, logs = [] \<rparr> :: (string, SearchData) world"
  have run: "saveToCsv ?p ?w = (Some AppendError, ?p\<lparr>storageQueue := []\<rparr>, ?w)"
    by (simp add: saveToCsv_fail)
  from C3_failed_flush_empties_batch[OF run] run show ?thesis by simp
qed

text \<open>
  C6. Through any sequence of \<open>addData\<close> and \<open>closePipeline\<close> calls on a new pipeline,
  throwing calls included, the rows the pipeline appended to its file and the rows of
  its batch carry pairwise different keys, and every key ever added is in the seen-set.
  An \<open>addData\<close> whose key is in the seen-set changes neither pipeline nor sink and logs
  one warning; one whose key is new inserts the key, pushes the record onto the batch
  and flushes when the batch has reached the limit. No sequence of calls removes a key
  from the seen-set.
\<close>
theorem C6_key_stored_at_most_once:
  fixes key :: "'a \<Rightarrow> 'k"
  shows "calls key cs (DataPipeline_new f lim) w = (p', w') \<Longrightarrow>
     (\<exists>flushed. file_rows w' f = file_rows w f @ flushed
         \<and> distinct (map key (flushed @ storageQueue p')))
   \<and> (\<forall>d. Add d \<in> set cs \<longrightarrow> key d \<in> namesSeen p')
   \<and> (\<forall>d q v. key d \<in> namesSeen q \<longrightarrow>
          addData key d q v = (None, q, log_line warn (DuplicateItemFound (key d)) v))
   \<and> (\<forall>d q v. key d \<notin> namesSeen q \<longrightarrow>
          addData key d q v =
            (let q' = q\<lparr>namesSeen := insert (key d) (namesSeen q),
                         storageQueue := storageQueue q @ [d]\<rparr>
             in if storageQueueLimit q' \<le> length (storageQueue q') then saveToCsv q' v
                else (None, q', v)))
   \<and> (\<forall>ds q v. namesSeen q \<subseteq> namesSeen (fst (calls key ds q v)))"
proof (intro conjI allI impI)
  assume c: "calls key cs (DataPipeline_new f lim) w = (p', w')"
  have f: "csvFilename p' = f"
    using csvFilename_calls[OF c] by (simp add: DataPipeline_new_def)
  from stored_once_calls[OF stored_once_new c]
  show "\<exists>flushed. file_rows w' f = file_rows w f @ flushed
         \<and> distinct (map key (flushed @ storageQueue p'))"
    unfolding stored_once_def f by blast
next
  fix d assume "calls key cs (DataPipeline_new f lim) w = (p', w')" "Add d \<in> set cs"
  then show "key d \<in> namesSeen p'" by (rule added_keys_calls)
next
  fix d and q :: "('k, 'a) DataPipeline" and v :: "('k, 'a) world"
  assume "key d \<in> namesSeen q"
  then show "addData key d q v = (None, q, log_line warn (DuplicateItemFound (key d)) v)"
    by (rule addData_dup)
next
  fix d and q :: "('k, 'a) DataPipeline" and v :: "('k, 'a) world"
  assume "key d \<notin> namesSeen q"
  then show "addData key d q v =
            (let q' = q\<lparr>namesSeen := insert (key d) (namesSeen q),
                         storageQueue := storageQueue q @ [d]\<rparr>
             in if storageQueueLimit q' \<le> length (storageQueue q') then saveToCsv q' v
                else (None, q', v))"
    by (simp add: addData_new Let_def)
next
  fix ds and q :: "('k, 'a) DataPipeline" and v :: "('k, 'a) world"
  show "namesSeen q \<subseteq> namesSeen (fst (calls key ds q v))"
    using namesSeen_calls[of key ds q v] by (cases "calls key ds q v") simp
qed

theorem C6_key_stored_at_most_once_witness:
  "calls name
      [Add (SearchData_new (Some ''a'') None None None None),
       Add (SearchData_new (Some ''b'') None None None None),
       Add (SearchData_new (Some ''a'') (Some ''again'') None None None),
       Close,
       Add (SearchData_new (Some ''a'') None None None None)]
      (DataPipeline_new ''out.csv'' 2) \<lparr> files = Map.empty, unwritable = {}, logs = [] \<rparr>
    = (\<lparr> namesSeen = {''a'', ''b''}, storageQueue = [], storageQueueLimit = 2,
          csvFilename = ''out.csv'' \<rparr>,
       \<lparr> files = [''out.csv'' \<mapsto> [(True, [SearchData_new (Some ''a'') None None None None,
                                               SearchData_new (Some ''b'') None None None None])]],
         unwritable = {},
         logs = [(warn, DuplicateItemFound ''a''), (warn, DuplicateItemFound ''a'')] \<rparr>)
   \<and> (\<exists>flushed.
         file_rows \<lparr> files = [''out.csv'' \<mapsto> [(True, [SearchData_new (Some ''a'') None None None None,
                                               SearchData_new (Some ''b'') None None None None])]],
                     unwritable = {},
                     logs = [(warn, DuplicateItemFound ''a''), (warn, DuplicateItemFound ''a'')] \<rparr>
           ''out.csv'' = flushed
         \<and> distinct (map name flushed))"
proof -
  let ?a = "SearchData_new (Some ''a'') None None None None"
  let ?b = "SearchData_new (Some ''b'') None None None None"
  let ?a' = "SearchData_new (Some ''a'') (Some ''again'') None None None"
  let ?w = "\<lparr> files = Map.empty, unwritable = {}, logs = [] \<rparr> :: (string, SearchData) world"
  let ?P = "\<lparr> namesSeen = {''a'', ''b''}, storageQueue = ([] :: SearchData list),
              storageQueueLimit = 2, csvFilename = ''out.csv'' \<rparr>"
  let ?W = "\<lparr> files = [''out.csv'' \<mapsto> [(True, [?a, ?b])]], unwritable = {},
         logs = [(warn, DuplicateItemFound ''a''), (warn, DuplicateItemFound ''a'')] \<rparr>"
  have na: "name ?a = ''a''" "name ?b = ''b''" "name ?a' = ''a''" by (simp_all add: new_simps)
  have run: "calls name [Add ?a, Add ?b, Add ?a', Close, Add ?a] (DataPipeline_new ''out.csv'' 2) ?w
      = (?P, ?W)"
    by (simp add: addData_def isDuplicate_def closePipeline_def saveToCsv_def appendFileSync_def
        existsSync_def log_line_def DataPipeline_new_def na Let_def insert_commute)
  from C6_key_stored_at_most_once[OF run] run show ?thesis
    by (simp add: file_rows_def)
qed

lemma calls_append:
  "calls key (xs @ ys) p w = (case calls key xs p w of (p', w') \<Rightarrow> calls key ys p' w')"
proof (induction xs arbitrary: p w)
  case Nil
  then show ?case by simp
next
  case (Cons c xs)
  then show ?case by (cases c) (simp_all split: prod.splits)
qed

lemma calls_below_limit:
  "distinct (map key rs) \<Longrightarrow> key ` set rs \<inter> namesSeen p = {} \<Longrightarrow>
   length (storageQueue p) + length rs < storageQueueLimit p \<Longrightarrow>
   calls key (map Add rs) p w =
     (p\<lparr>namesSeen := namesSeen p \<union> key ` set rs, storageQueue := storageQueue p @ rs\<rparr>, w)"
proof (induction rs arbitrary: p)
  case Nil
  then show ?case by simp
next
  case (Cons r rs)
  let ?q = "p\<lparr>namesSeen := insert (key r) (namesSeen p), storageQueue := storageQueue p @ [r]\<rparr>"
  from Cons.prems have new: "key r \<notin> namesSeen p" by auto
  from Cons.prems have step: "addData key r p w = (None, ?q, w)"
    using new by (simp add: addData_new)
  have "calls key (map Add rs) ?q w =
     (?q\<lparr>namesSeen := namesSeen ?q \<union> key ` set rs, storageQueue := storageQueue ?q @ rs\<rparr>, w)"
    using Cons.prems by (intro Cons.IH) auto
  with step show ?case by simp
qed

lemma calls_fresh_below_limit:
  fixes key :: "'a \<Rightarrow> 'k"
  assumes "distinct (map key rs)" "length rs < T"
  shows "calls key (map Add rs) (DataPipeline_new f T) w =
     (\<lparr> namesSeen = key ` set rs, storageQueue = rs, storageQueueLimit = T, csvFilename = f \<rparr>, w)"
  using calls_below_limit[of key rs "DataPipeline_new f T" w] assms
  by (simp add: DataPipeline_new_def)

text \<open>
  C7. On a new pipeline with threshold \<open>T > 0\<close> and a writable file, adding \<open>T\<close> records
  with pairwise different keys leaves the batch empty and the file extended by one write
  holding exactly those records in order (with the header iff the file did not exist);
  adding \<open>T - 1\<close> such records leaves all of them in the batch and the world untouched.
\<close>
theorem C7_flush_at_threshold:
  fixes key :: "'a \<Rightarrow> 'k"
  assumes "0 < T" "distinct (map key rs)" "f \<notin> unwritable w"
  shows "(length rs = T \<longrightarrow>
            calls key (map Add rs) (DataPipeline_new f T) w =
              (\<lparr> namesSeen = key ` set rs, storageQueue = [], storageQueueLimit = T,
                  csvFilename = f \<rparr>,
               w\<lparr>files := (files w)(f \<mapsto>
                    (case files w f of None \<Rightarrow> [] | Some cs \<Rightarrow> cs) @ [(\<not> existsSync w f, rs)])\<rparr>))
       \<and> (Suc (length rs) = T \<longrightarrow>
            calls key (map Add rs) (DataPipeline_new f T) w =
              (\<lparr> namesSeen = key ` set rs, storageQueue = rs, storageQueueLimit = T,
                  csvFilename = f \<rparr>, w))"
proof (intro conjI impI)
  assume "Suc (length rs) = T"
  then have "length rs < T" by simp
  from calls_fresh_below_limit[OF assms(2) this]
  show "calls key (map Add rs) (DataPipeline_new f T) w =
              (\<lparr> namesSeen = key ` set rs, storageQueue = rs, storageQueueLimit = T,
                  csvFilename = f \<rparr>, w)" .
next
  assume len: "length rs = T"
  with assms(1) have ne: "rs \<noteq> []" by auto
  define xs where "xs = butlast rs"
  define r where "r = last rs"
  from ne have rs: "rs = xs @ [r]" by (simp add: xs_def r_def)
  from assms(2) rs have dxs: "distinct (map key xs)" and new: "key r \<notin> key ` set xs" by auto
  from len rs have lxs: "length xs < T" "T \<le> Suc (length xs)" by auto
  let ?p = "\<lparr> namesSeen = key ` set xs, storageQueue = xs, storageQueueLimit = T, csvFilename = f \<rparr>"
  have first: "calls key (map Add xs) (DataPipeline_new f T) w = (?p, w)"
    by (rule calls_fresh_below_limit[OF dxs lxs(1)])
  have last: "addData key r ?p w =
     (None, \<lparr> namesSeen = key ` set rs, storageQueue = [], storageQueueLimit = T, csvFilename = f \<rparr>,
      w\<lparr>files := (files w)(f \<mapsto>
            (case files w f of None \<Rightarrow> [] | Some cs \<Rightarrow> cs) @ [(\<not> existsSync w f, rs)])\<rparr>)"
    using new lxs(2) assms(3) by (simp add: addData_new saveToCsv_ok rs)
  show "calls key (map Add rs) (DataPipeline_new f T) w =
              (\<lparr> namesSeen = key ` set rs, storageQueue = [], storageQueueLimit = T,
                  csvFilename = f \<rparr>,
               w\<lparr>files := (files w)(f \<mapsto>
                    (case files w f of None \<Rightarrow> [] | Some cs \<Rightarrow> cs) @ [(\<not> existsSync w f, rs)])\<rparr>)"
    unfolding rs map_append calls_append first
    using last by (simp add: rs)
qed

theorem C7_flush_at_threshold_witness:
  "(0::nat) < 2
   \<and> distinct (map name [SearchData_new (Some ''a'') None None None None,
                          SearchData_new (Some ''b'') None None None None])
   \<and> ''out.csv'' \<notin> unwritable (\<lparr>files = Map.empty, unwritable = {}, logs = []\<rparr> :: (string, SearchData) world)
   \<and> storageQueue (fst (calls name
        (map Add [SearchData_new (Some ''a'') None None None None,
                  SearchData_new (Some ''b'') None None None None])
        (DataPipeline_new ''out.csv'' 2) \<lparr>files = Map.empty, unwritable = {}, logs = []\<rparr>)) = []
   \<and> files (snd (calls name
        (map Add [SearchData_new (Some ''a'') None None None None,
                  SearchData_new (Some ''b'') None None None None])
        (DataPipeline_new ''out.csv'' 2) \<lparr>files = Map.empty, unwritable = {}, logs = []\<rparr>)) ''out.csv''
       = Some [(True, [SearchData_new (Some ''a'') None None None None,
                       SearchData_new (Some ''b'') None None None None])]
   \<and> calls name (map Add [SearchData_new (Some ''a'') None None None None])
        (DataPipeline_new ''out.csv'' 2) \<lparr>files = Map.empty, unwritable = {}, logs = []\<rparr>
       = (\<lparr> namesSeen = {''a''}, storageQueue = [SearchData_new (Some ''a'') None None None None],
             storageQueueLimit = 2, csvFilename = ''out.csv'' \<rparr>,
          \<lparr>files = Map.empty, unwritable = {}, logs = []\<rparr>)"
proof -
  let ?a = "SearchData_new (Some ''a'') None None None None"
  let ?b = "SearchData_new (Some ''b'') None None None None"
  let ?w = "\<lparr>files = Map.empty, unwritable = {}, logs = []\<rparr> :: (string, SearchData) world"
  have na: "name ?a = ''a''" and nb: "name ?b = ''b''" by (simp_all add: new_simps)
  have d2: "distinct (map name [?a, ?b])" and d1: "distinct (map name [?a])"
    by (simp_all add: na nb)
  have w: "''out.csv'' \<notin> unwritable ?w" by simp
  have T: "(0::nat) < 2" by simp
  from C7_flush_at_threshold[OF T d2 w] C7_flush_at_threshold[OF T d1 w] d2
  show ?thesis by (simp add: existsSync_def na nb)
qed

text \<open>
  C8. \<open>closePipeline\<close> on a non-empty batch with a writable file appends the whole batch
  in one write and empties the batch. Whatever the first \<open>closePipeline\<close> did, a second
  one right after it returns pipeline and world unchanged. On an empty batch both
  \<open>closePipeline\<close> and \<open>saveToCsv\<close> change nothing: no write, hence no header either.
\<close>
theorem C8_close_flushes_once:
  "(storageQueue p \<noteq> [] \<and> csvFilename p \<notin> unwritable w \<longrightarrow>
      closePipeline p w =
        (None, p\<lparr>storageQueue := []\<rparr>,
         w\<lparr>files := (files w)(csvFilename p \<mapsto>
              (case files w (csvFilename p) of None \<Rightarrow> [] | Some cs \<Rightarrow> cs)
                @ [(\<not> existsSync w (csvFilename p), storageQueue p)])\<rparr>))
   \<and> (case closePipeline p w of (e, p', w') \<Rightarrow> closePipeline p' w' = (None, p', w'))
   \<and> (storageQueue p = [] \<longrightarrow>
        closePipeline p w = (None, p, w) \<and> saveToCsv p w = (None, p, w))"
proof (intro conjI impI)
  assume "storageQueue p \<noteq> [] \<and> csvFilename p \<notin> unwritable w"
  then show "closePipeline p w =
        (None, p\<lparr>storageQueue := []\<rparr>,
         w\<lparr>files := (files w)(csvFilename p \<mapsto>
              (case files w (csvFilename p) of None \<Rightarrow> [] | Some cs \<Rightarrow> cs)
                @ [(\<not> existsSync w (csvFilename p), storageQueue p)])\<rparr>)"
    by (simp add: closePipeline_eq saveToCsv_ok)
next
  show "case closePipeline p w of (e, p', w') \<Rightarrow> closePipeline p' w' = (None, p', w')"
  proof (cases "closePipeline p w")
    case (fields e p' w')
    then have "storageQueue p' = []"
      unfolding closePipeline_eq by (auto dest: saveToCsv_cases)
    with fields show ?thesis by (simp add: closePipeline_eq saveToCsv_empty)
  qed
next
  assume "storageQueue p = []"
  then show "closePipeline p w = (None, p, w)" by (simp add: closePipeline_eq saveToCsv_empty)
next
  assume "storageQueue p = []"
  then show "saveToCsv p w = (None, p, w)" by (simp add: saveToCsv_empty)
qed

theorem C8_close_flushes_once_witness:
  "closePipeline
      \<lparr> namesSeen = {''a''}, storageQueue = [SearchData_new (Some ''a'') None None None None],
        storageQueueLimit = 50, csvFilename = ''out.csv'' \<rparr>
      \<lparr> files = Map.empty, unwritable = {}, logs = [] \<rparr>
    = (None,
       \<lparr> namesSeen = {''a''}, storageQueue = [], storageQueueLimit = 50, csvFilename = ''out.csv'' \<rparr>,
       \<lparr> files = [''out.csv'' \<mapsto> [(True, [SearchData_new (Some ''a'') None None None None])]],
         unwritable = {}, logs = [] \<rparr>)
   \<and> closePipeline
      \<lparr> namesSeen = {''a''}, storageQueue = ([] :: SearchData list), storageQueueLimit = 50,
        csvFilename = ''out.csv'' \<rparr>
      \<lparr> files = [''out.csv'' \<mapsto> [(True, [SearchData_new (Some ''a'') None None None None])]],
         unwritable = {}, logs = [] \<rparr>
    = (None,
       \<lparr> namesSeen = {''a''}, storageQueue = [], storageQueueLimit = 50, csvFilename = ''out.csv'' \<rparr>,
       \<lparr> files = [''out.csv'' \<mapsto> [(True, [SearchData_new (Some ''a'') None None None None])]],
         unwritable = {}, logs = [] \<rparr>)"
proof -
  let ?a = "SearchData_new (Some ''a'') None None None None"
  let ?p = "\<lparr> namesSeen = {''a''}, storageQueue = [?a],
        storageQueueLimit = 50, csvFilename = ''out.csv'' \<rparr>"
  let ?w = "\<lparr> files = Map.empty, unwritable = {}, logs = [] \<rparr> :: (string, SearchData) world"
  have first: "closePipeline ?p ?w =
     (None, ?p\<lparr>storageQueue := []\<rparr>, ?w\<lparr>files := [''out.csv'' \<mapsto> [(True, [?a])]]\<rparr>)"
    using C8_close_flushes_once[of ?p ?w] by (simp add: existsSync_def)
  have second: "closePipeline (?p\<lparr>storageQueue := []\<rparr>) (?w\<lparr>files := [''out.csv'' \<mapsto> [(True, [?a])]]\<rparr>)
      = (None, ?p\<lparr>storageQueue := []\<rparr>, ?w\<lparr>files := [''out.csv'' \<mapsto> [(True, [?a])]]\<rparr>)"
    using C8_close_flushes_once[of ?p ?w] first by (simp add: existsSync_def)
  from first second show ?thesis by simp
qed

section \<open>Page discovery properties\<close>

lemma replace_comma_space_other:
  "\<not> (c = CHR '','' \<and> (\<exists>t. s = CHR '' '' # t)) \<Longrightarrow>
   replace_comma_space (c # s) = c # replace_comma_space s"
  by (cases s) auto

lemma formattedKeyword_laws:
  "formattedKeyword [] = []
   \<and> formattedKeyword ('', '' @ s) = ''--'' @ formattedKeyword s
   \<and> formattedKeyword (CHR '' '' # s) = CHR ''-'' # formattedKeyword s
   \<and> (c \<noteq> CHR '' '' \<and> \<not> (c = CHR '','' \<and> (\<exists>t. s = CHR '' '' # t)) \<longrightarrow>
        formattedKeyword (c # s) = c # formattedKeyword s)"
  by (simp add: formattedKeyword_def replace_space_def replace_comma_space_other)

text \<open>
  C9. When the browser starts and closes and the page cap is at least 1,
  \<open>findPaginationUrls\<close> returns the term's first search page URL followed by the first
  \<open>pages - 1\<close> pagination links in document order, so at most \<open>pages\<close> URLs; when the
  fetch or the extraction throws, it logs the error and returns the first page URL
  alone. The term's first search page URL is \<open>https://www.airbnb.com/s/\<close>, the formatted
  term and \<open>/homes\<close>, and the formatted term is the term read from the left with every
  comma followed by a space turned into two dashes, every other space into one dash,
  and every other character kept.
\<close>

theorem C9_pagination_urls:
  assumes "launch_ok env" "page_ok env" "browser_close_ok env" "1 \<le> pages"
  shows "findPaginationUrls env keyword pages w =
           (case anchors env of
              Some paginationLinks \<Rightarrow>
                (Inr (search_url keyword # take (nat (pages - 1)) paginationLinks),
                 log_line info PaginationLinksCollected w)
            | None \<Rightarrow>
                (Inr [search_url keyword],
                 log_line info PaginationLinksCollected
                   (log_line error ErrorFetchingPaginationURLs w)))
         \<and> (\<exists>links. fst (findPaginationUrls env keyword pages w) = Inr links
                \<and> hd links = search_url keyword \<and> int (length links) \<le> pages)
         \<and> search_url keyword = ''https://www.airbnb.com/s/'' @ formattedKeyword keyword @ ''/homes''
         \<and> formattedKeyword [] = []
         \<and> (\<forall>s. formattedKeyword ('', '' @ s) = ''--'' @ formattedKeyword s)
         \<and> (\<forall>s. formattedKeyword (CHR '' '' # s) = CHR ''-'' # formattedKeyword s)
         \<and> (\<forall>c s. c \<noteq> CHR '' '' \<and> \<not> (c = CHR '','' \<and> (\<exists>t. s = CHR '' '' # t)) \<longrightarrow>
                formattedKeyword (c # s) = c # formattedKeyword s)"
proof -
  have run: "findPaginationUrls env keyword pages w =
           (case anchors env of
              Some paginationLinks \<Rightarrow>
                (Inr (search_url keyword # take (nat (pages - 1)) paginationLinks),
                 log_line info PaginationLinksCollected w)
            | None \<Rightarrow>
                (Inr [search_url keyword],
                 log_line info PaginationLinksCollected
                   (log_line error ErrorFetchingPaginationURLs w)))"
    using assms
    by (cases "anchors env") (auto simp: findPaginationUrls_def js_slice0_def Let_def)
  have len: "\<exists>links. fst (findPaginationUrls env keyword pages w) = Inr links
                \<and> hd links = search_url keyword \<and> int (length links) \<le> pages"
    using assms unfolding run by (cases "anchors env") auto
  from run len formattedKeyword_laws show ?thesis
    by (simp add: search_url_def)
qed

theorem C9_pagination_urls_witness:
  "launch_ok \<lparr>launch_ok = True, page_ok = True,
               anchors = Some [''p2'', ''p3'', ''p4'', ''p5'', ''p6''], browser_close_ok = True\<rparr>
   \<and> (1::int) \<le> PAGES
   \<and> findPaginationUrls
        \<lparr>launch_ok = True, page_ok = True,
          anchors = Some [''p2'', ''p3'', ''p4'', ''p5'', ''p6''], browser_close_ok = True\<rparr>
        ''Myrtle Beach, South Carolina, United States'' PAGES
        (\<lparr>files = Map.empty, unwritable = {}, logs = []\<rparr> :: (string, SearchData) world)
      = (Inr [''https://www.airbnb.com/s/Myrtle-Beach--South-Carolina--United-States/homes'',
              ''p2'', ''p3'', ''p4''],
         \<lparr>files = Map.empty, unwritable = {}, logs = [(info, PaginationLinksCollected)]\<rparr>)
   \<and> findPaginationUrls
        \<lparr>launch_ok = True, page_ok = True, anchors = Some [''q2''], browser_close_ok = True\<rparr>
        ''Paris,France and  Nice'' PAGES
        (\<lparr>files = Map.empty, unwritable = {}, logs = []\<rparr> :: (string, SearchData) world)
      = (Inr [''https://www.airbnb.com/s/Paris,France-and--Nice/homes'', ''q2''],
         \<lparr>files = Map.empty, unwritable = {}, logs = [(info, PaginationLinksCollected)]\<rparr>)
   \<and> findPaginationUrls
        \<lparr>launch_ok = True, page_ok = True, anchors = None, browser_close_ok = True\<rparr>
        ''Myrtle Beach, South Carolina, United States'' PAGES
        (\<lparr>files = Map.empty, unwritable = {}, logs = []\<rparr> :: (string, SearchData) world)
      = (Inr [''https://www.airbnb.com/s/Myrtle-Beach--South-Carolina--United-States/homes''],
         \<lparr>files = Map.empty, unwritable = {},
           logs = [(error, ErrorFetchingPaginationURLs), (info, PaginationLinksCollected)]\<rparr>)"
proof -
  let ?w = "\<lparr>files = Map.empty, unwritable = {}, logs = []\<rparr> :: (string, SearchData) world"
  have u: "search_url ''Myrtle Beach, South Carolina, United States''
      = ''https://www.airbnb.com/s/Myrtle-Beach--South-Carolina--United-States/homes''"
    "search_url ''Paris,France and  Nice''
      = ''https://www.airbnb.com/s/Paris,France-and--Nice/homes''"
    by (simp_all add: search_url_def formattedKeyword_def replace_space_def)
  have P: "(1::int) \<le> PAGES" by (simp add: PAGES_def)
  have a: "findPaginationUrls \<lparr>launch_ok = True, page_ok = True, anchors = A,
               browser_close_ok = True\<rparr> k PAGES ?w =
           (case A of
              Some paginationLinks \<Rightarrow>
                (Inr (search_url k # take (nat (PAGES - 1)) paginationLinks),
                 log_line info PaginationLinksCollected ?w)
            | None \<Rightarrow>
                (Inr [search_url k],
                 log_line info PaginationLinksCollected
                   (log_line error ErrorFetchingPaginationURLs ?w)))" for A k
    using C9_pagination_urls[of "\<lparr>launch_ok = True, page_ok = True, anchors = A,
               browser_close_ok = True\<rparr>" PAGES k ?w, THEN conjunct1] P
    by simp
  show ?thesis
    by (simp add: a u P log_line_def) (simp add: PAGES_def)
qed


section \<open>Fetch with retry properties\<close>













section \<open>Detail crawl properties\<close>

declare listing_loop.simps [simp del]

lemma addData_below_limit:
  "Suc (length (storageQueue p)) < storageQueueLimit p \<Longrightarrow> addData key d p w = (e, p', w') \<Longrightarrow>
     e = None \<and> files w' = files w \<and> unwritable w' = unwritable w
     \<and> storageQueueLimit p' = storageQueueLimit p
     \<and> length (storageQueue p') \<le> Suc (length (storageQueue p))"
  by (cases "key d \<in> namesSeen p") (auto simp: addData_dup addData_new log_line_def)

lemma addReviews_below_limit:
  "length (storageQueue p) + length (takeWhile (\<lambda>c. c \<noteq> CardThrows) cs) < storageQueueLimit p \<Longrightarrow>
   addReviews cs p w = (e, p', w') \<Longrightarrow>
     files w' = files w \<and> unwritable w' = unwritable w
     \<and> (CardThrows \<in> set cs \<longrightarrow> e = Some ExtractionError)"
proof (induction cs arbitrary: p w)
  case Nil
  then show ?case by simp
next
  case (Cons c cs)
  show ?case
  proof (cases c)
    case CardThrows
    with Cons.prems show ?thesis by simp
  next
    case (Card n s r)
    obtain e1 p1 w1 where a: "addData rname (review_of n s r) p w = (e1, p1, w1)"
      by (metis prod_cases3)
    from Cons.prems(1) Card have lt: "Suc (length (storageQueue p)) < storageQueueLimit p"
      and rest: "Suc (length (storageQueue p)) + length (takeWhile (\<lambda>c. c \<noteq> CardThrows) cs)
                   < storageQueueLimit p"
      by simp_all
    from addData_below_limit[OF lt a]
    have e1: "e1 = None" and f1: "files w1 = files w" "unwritable w1 = unwritable w"
      and l1: "storageQueueLimit p1 = storageQueueLimit p"
              "length (storageQueue p1) \<le> Suc (length (storageQueue p))"
      by simp_all
    from Cons.prems(2) Card a e1 have run: "addReviews cs p1 w1 = (e, p', w')" by simp
    from rest l1 have "length (storageQueue p1) + length (takeWhile (\<lambda>c. c \<noteq> CardThrows) cs)
        < storageQueueLimit p1" by simp
    from Cons.IH[OF this run] f1 Card show ?thesis by simp
  qed
qed

lemma listing_attempt_fails_early:
  assumes "fails_early (listing env t)" "listing_attempt env r t w = (e, w')"
  shows "e \<noteq> None \<and> files w' = files w \<and> unwritable w' = unwritable w"
proof (cases "listing env t")
  case ListingThrows
  with assms(2) show ?thesis by (auto simp: listing_attempt_def)
next
  case (Cards cs)
  with assms(1) have thr: "CardThrows \<in> set cs"
    and few: "length (takeWhile (\<lambda>c. c \<noteq> CardThrows) cs) < 50"
    by (simp_all add: fails_early_def)
  let ?p = "DataPipeline_new (review_filename r) 50 :: (js, ReviewData) DataPipeline"
  obtain e1 p1 w1 where a: "addReviews cs ?p w = (e1, p1, w1)" by (metis prod_cases3)
  from few have "length (storageQueue ?p) + length (takeWhile (\<lambda>c. c \<noteq> CardThrows) cs)
      < storageQueueLimit ?p"
    by (simp add: DataPipeline_new_def)
  from addReviews_below_limit[OF this a] thr
  have "files w1 = files w" "unwritable w1 = unwritable w" "e1 = Some ExtractionError" by simp_all
  with assms(2) Cards a show ?thesis by (auto simp: listing_attempt_def)
qed

lemma listing_loop_all_fail:
  "\<forall>j. t \<le> j \<and> j < R \<longrightarrow> fails_early (listing env j) \<Longrightarrow> t < R \<Longrightarrow>
     files (listing_loop env r R t w) = files w
     \<and> unwritable (listing_loop env r R t w) = unwritable w
     \<and> logs (listing_loop env r R t w) \<noteq> []
     \<and> last (logs (listing_loop env r R t w)) = (error, MaxRetriesExceeded (row_url r))"
proof (induction "R - t" arbitrary: t w)
  case 0
  then show ?case by simp
next
  case (Suc d)
  let ?w0 = "log_line info (AttemptingToNavigate (row_url r) (t + 1)) w"
  obtain e w1 where a: "listing_attempt env r t ?w0 = (e, w1)" by (metis prod.exhaust)
  from Suc.prems have "fails_early (listing env t)" by auto
  from listing_attempt_fails_early[OF this a]
  obtain x where e: "e = Some x" and f: "files w1 = files w" "unwritable w1 = unwritable w"
    by (auto simp: log_line_def)
  let ?w2 = "log_line console_error (ErrorProcessingURL (row_url r) (t + 1)) w1"
  show ?case
  proof (cases "R \<le> t + 1")
    case True
    with Suc.prems(2) a e have "listing_loop env r R t w
        = log_line error (MaxRetriesExceeded (row_url r)) ?w2"
      by (simp add: listing_loop.simps[of env r R t] Let_def)
    with f show ?thesis by (simp add: log_line_def)
  next
    case False
    with Suc.prems(2) a e have step: "listing_loop env r R t w = listing_loop env r R (t + 1) ?w2"
      by (simp add: listing_loop.simps[of env r R t] Let_def)
    have "files (listing_loop env r R (t + 1) ?w2) = files ?w2
     \<and> unwritable (listing_loop env r R (t + 1) ?w2) = unwritable ?w2
     \<and> logs (listing_loop env r R (t + 1) ?w2) \<noteq> []
     \<and> last (logs (listing_loop env r R (t + 1) ?w2)) = (error, MaxRetriesExceeded (row_url r))"
      using Suc.hyps(2) Suc.prems False by (intro Suc.hyps(1)) auto
    with step f show ?thesis by (simp add: log_line_def)
  qed
qed

text \<open>
  C2 (as amended). \<open>processListing\<close> never throws once its page opens and closes. When
  every one of the \<open>retries > 0\<close> attempts fails in navigation, or while reading a card
  after fewer than 50 cards, the row is logged (\<open>Max Retries exceeded\<close> is the last log
  line) and the sink is exactly as before the call: the review pipeline of a failed
  attempt is never closed, and the reviews added to it are written nowhere.
\<close>

theorem C2_failed_row_writes_nothing:
  assumes "tab_opens env" "tab_closes env"
  shows "fst (processListing env r retries w) = None
         \<and> (0 < retries \<and> (\<forall>j<retries. fails_early (listing env j)) \<longrightarrow>
              files (snd (processListing env r retries w)) = files w
              \<and> last (logs (snd (processListing env r retries w)))
                  = (error, MaxRetriesExceeded (row_url r)))"
  using assms listing_loop_all_fail[of 0 retries env r w]
  by (auto simp: processListing_def Let_def)


text \<open>
  C2 as stated fails. A row named \<open>Beach House\<close> whose page, on both attempts, yields one
  review card and then throws on the second: when the attempt fails its pipeline holds
  the first review, and after \<open>processListing\<close> has returned the world has no file at all;
  the pipeline was not closed and the review was dropped.
\<close>

theorem C2_partial_reviews_never_flushed:
  "review_filename \<lparr>row_name = ''Beach House'', row_url = ''u''\<rparr> = ''Beach-House.csv''
   \<and> addReviews [Card (Some ''Ann'') 5 (Some ''Great stay''), CardThrows]
        (DataPipeline_new ''Beach-House.csv'' 50) \<lparr>files = Map.empty, unwritable = {}, logs = []\<rparr>
      = (Some ExtractionError,
         \<lparr>namesSeen = {JStr ''Ann''},
           storageQueue = [\<lparr>rname = JStr ''Ann'', stars = JNum 5, review = JStr ''Great stay''\<rparr>],
           storageQueueLimit = 50, csvFilename = ''Beach-House.csv''\<rparr>,
         \<lparr>files = Map.empty, unwritable = {}, logs = []\<rparr>)
   \<and> processListing
        \<lparr>tab_opens = True,
          listing = (\<lambda>n. Cards [Card (Some ''Ann'') 5 (Some ''Great stay''), CardThrows]),
          tab_closes = True\<rparr>
        \<lparr>row_name = ''Beach House'', row_url = ''u''\<rparr> MAX_RETRIES
        \<lparr>files = Map.empty, unwritable = {}, logs = []\<rparr>
      = (None,
         \<lparr>files = Map.empty, unwritable = {},
           logs = [(info, AttemptingToNavigate ''u'' 1), (console_error, ErrorProcessingURL ''u'' 1),
                   (info, AttemptingToNavigate ''u'' 2), (console_error, ErrorProcessingURL ''u'' 2),
                   (error, MaxRetriesExceeded ''u'')]\<rparr>)"
proof -
  have fn: "review_filename \<lparr>row_name = ''Beach House'', row_url = ''u''\<rparr> = ''Beach-House.csv''"
    by (simp add: review_filename_def replace_slash_def replace_ws_runs.simps trim_eval)
  have rv: "review_of (Some ''Ann'') 5 (Some ''Great stay'')
      = \<lparr>rname = JStr ''Ann'', stars = JNum 5, review = JStr ''Great stay''\<rparr>"
    by (simp add: review_of_def ReviewData_new_def checkStringFields_def checkStringField_def
        dflt_def trim_eval)
  have add: "\<And>w. addReviews [Card (Some ''Ann'') 5 (Some ''Great stay''), CardThrows]
        (DataPipeline_new ''Beach-House.csv'' 50) (w :: (js, ReviewData) world)
      = (Some ExtractionError,
         \<lparr>namesSeen = {JStr ''Ann''},
           storageQueue = [\<lparr>rname = JStr ''Ann'', stars = JNum 5, review = JStr ''Great stay''\<rparr>],
           storageQueueLimit = 50, csvFilename = ''Beach-House.csv''\<rparr>, w)"
    by (simp add: rv addData_def isDuplicate_def DataPipeline_new_def)
  show ?thesis
    by (simp add: fn add processListing_def listing_loop.simps listing_attempt_def
        MAX_RETRIES_def log_line_def Let_def del: addReviews.simps)
qed

theorem C2_failed_row_writes_nothing_witness:
  "tab_opens \<lparr>tab_opens = True,
       listing = (\<lambda>n. if n = 0 then ListingThrows
                       else Cards [Card (Some ''Ann'') 5 (Some ''Great stay''), CardThrows]),
       tab_closes = True\<rparr>
   \<and> (0::nat) < MAX_RETRIES
   \<and> fails_early (Cards [Card (Some ''Ann'') 5 (Some ''Great stay''), CardThrows])
   \<and> fst (processListing
        \<lparr>tab_opens = True,
          listing = (\<lambda>n. if n = 0 then ListingThrows
                          else Cards [Card (Some ''Ann'') 5 (Some ''Great stay''), CardThrows]),
          tab_closes = True\<rparr>
        \<lparr>row_name = ''Beach House'', row_url = ''u''\<rparr> MAX_RETRIES
        \<lparr>files = Map.empty, unwritable = {}, logs = []\<rparr>) = None
   \<and> files (snd (processListing
        \<lparr>tab_opens = True,
          listing = (\<lambda>n. if n = 0 then ListingThrows
                          else Cards [Card (Some ''Ann'') 5 (Some ''Great stay''), CardThrows]),
          tab_closes = True\<rparr>
        \<lparr>row_name = ''Beach House'', row_url = ''u''\<rparr> MAX_RETRIES
        \<lparr>files = Map.empty, unwritable = {}, logs = []\<rparr>)) = Map.empty
   \<and> last (logs (snd (processListing
        \<lparr>tab_opens = True,
          listing = (\<lambda>n. if n = 0 then ListingThrows
                          else Cards [Card (Some ''Ann'') 5 (Some ''Great stay''), CardThrows]),
          tab_closes = True\<rparr>
        \<lparr>row_name = ''Beach House'', row_url = ''u''\<rparr> MAX_RETRIES
        \<lparr>files = Map.empty, unwritable = {}, logs = []\<rparr>))) = (error, MaxRetriesExceeded ''u'')"
proof -
  let ?env = "\<lparr>tab_opens = True,
       listing = (\<lambda>n. if n = 0 then ListingThrows
                       else Cards [Card (Some ''Ann'') 5 (Some ''Great stay''), CardThrows]),
       tab_closes = True\<rparr>"
  have fe: "fails_early (Cards [Card (Some ''Ann'') 5 (Some ''Great stay''), CardThrows])"
    "fails_early ListingThrows"
    by (simp_all add: fails_early_def)
  then have all: "\<forall>j<MAX_RETRIES. fails_early (listing ?env j)" by simp
  have pos: "(0::nat) < MAX_RETRIES" by (simp add: MAX_RETRIES_def)
  from C2_failed_row_writes_nothing[of ?env "\<lparr>row_name = ''Beach House'', row_url = ''u''\<rparr>"
      MAX_RETRIES "\<lparr>files = Map.empty, unwritable = {}, logs = []\<rparr>"] all pos fe
  show ?thesis by simp
qed

section \<open>Window properties\<close>

declare spawn.simps [simp del] window_loop.simps [simp del]

















section \<open>Orchestrator properties\<close>

text \<open>
  C10. With two recorded files, the loop over the files has called \<open>processResults\<close> on
  the second file, and has ended, while the \<open>'end'\<close> callback of the first file, which
  is what crawls its rows, is still waiting to be called: the detail crawls are started
  one after the other but none is awaited.
\<close>

theorem C10_second_file_started_before_first_crawled:
  "process_files (\<lambda>file. True) [''a.csv'', ''b.csv''] \<lparr>printed = [], end_callbacks = []\<rparr>
     = \<lparr>printed = [Processing ''a.csv'', Processing ''b.csv''],
         end_callbacks = [(''a.csv'', 2), (''b.csv'', 2)]\<rparr>"
  by (simp add: processResults_def MAX_RETRIES_def Let_def)


end
